theory Spec2Isabelle
  imports Complex_Main
begin

section \<open>The alignment comparison engine of the alignment viewer\<close>

text \<open>
  The two functions of \<^verbatim>\<open>alignment_viewer_script.py\<close> that carry the algorithmic
  contract are embedded here: \<^verbatim>\<open>find_differences\<close> (the position classifier, which
  \<^verbatim>\<open>alignment_viewer_with_aligner.py\<close> repeats line for line) and
  \<^verbatim>\<open>calculate_pairwise_distances\<close> (the pairwise distance engine).

  Conventions of the embedding.
  \<^item> A Python exception is a value: every function that can raise returns
    \<open>py_error + 'a\<close>, with \<open>Inl\<close> for the exception.
  \<^item> The alignment is a Python \<^verbatim>\<open>dict\<close> from names to sequences whose insertion
    order the code relies on. It is an association list in insertion order; that the keys
    of a dict are unique is the predicate \<open>is_dict\<close>.
  \<^item> A position comes from \<^verbatim>\<open>range(len(...))\<close> and is a \<open>nat\<close>; the counters
    \<^verbatim>\<open>snps\<close> and \<^verbatim>\<open>usable_positions\<close> are Python integers and are \<open>int\<close>.
  \<^item> \<open>upper\<close> is \<^verbatim>\<open>str.upper\<close> on one ASCII character (the nucleotide letters, the
    IUPAC codes and the gap sign are ASCII). Beyond ASCII \<^verbatim>\<open>str.upper\<close> maps further
    letters, which \<open>upper\<close> does not follow; so every theorem whose conclusion depends on
    the character that \<open>upper\<close> returns has the hypothesis \<open>ascii_alignment\<close>, that all
    characters of all sequences are ASCII.
  \<^item> \<^verbatim>\<open>identity\<close> is a Python float. Each floating-point operation is the exact
    operation on the reals followed by a rounding function \<open>rnd\<close>, which is a parameter of
    the model; what a theorem needs of it (monotonicity, that a given number is
    representable) is a hypothesis of that theorem.
\<close>

subsection \<open>Exceptions and sequencing\<close>

datatype py_error = IndexError | KeyError | ZeroDivisionError

definition and_then :: "py_error + 'a \<Rightarrow> ('a \<Rightarrow> py_error + 'b) \<Rightarrow> py_error + 'b" where
  "and_then m f = (case m of Inl e \<Rightarrow> Inl e | Inr x \<Rightarrow> f x)"

text \<open>\<^verbatim>\<open>xs[i]\<close> for an index \<open>i \<ge> 0\<close>: IndexError beyond the end.\<close>

definition getitem :: "'a list \<Rightarrow> nat \<Rightarrow> py_error + 'a" where
  "getitem xs i = (if i < length xs then Inr (xs ! i) else Inl IndexError)"

text \<open>\<^verbatim>\<open>d[k]\<close> on a dict held as an association list, and on a dict held as a map.\<close>

definition dict_getitem :: "('k \<times> 'v) list \<Rightarrow> 'k \<Rightarrow> py_error + 'v" where
  "dict_getitem d k = (case map_of d k of None \<Rightarrow> Inl KeyError | Some v \<Rightarrow> Inr v)"

definition map_getitem :: "('k \<rightharpoonup> 'v) \<Rightarrow> 'k \<Rightarrow> py_error + 'v" where
  "map_getitem d k = (case d k of None \<Rightarrow> Inl KeyError | Some v \<Rightarrow> Inr v)"

text \<open>
  \<^verbatim>\<open>for x in xs: body\<close> with the loop's variables as the state \<open>s\<close>; an exception in
  the body leaves the loop.
\<close>

fun for_loop :: "'i list \<Rightarrow> ('i \<Rightarrow> 's \<Rightarrow> py_error + 's) \<Rightarrow> 's \<Rightarrow> py_error + 's" where
  "for_loop [] body s = Inr s"
| "for_loop (x # xs) body s =
     (case body x s of Inl e \<Rightarrow> Inl e | Inr s' \<Rightarrow> for_loop xs body s')"

text \<open>The list comprehension \<^verbatim>\<open>[f(x) for x in xs]\<close>, evaluated left to right.\<close>

fun comprehension :: "('a \<Rightarrow> py_error + 'b) \<Rightarrow> 'a list \<Rightarrow> py_error + 'b list" where
  "comprehension f [] = Inr []"
| "comprehension f (x # xs) =
     (case f x of Inl e \<Rightarrow> Inl e
      | Inr y \<Rightarrow> (case comprehension f xs of Inl e \<Rightarrow> Inl e | Inr ys \<Rightarrow> Inr (y # ys)))"

subsection \<open>Characters\<close>

text \<open>
  \<^verbatim>\<open>c.upper()\<close> on an ASCII character (a code point below 128): the letters a to z move
  to A to Z and every other ASCII character stays. On the other characters the definition
  is not \<^verbatim>\<open>str.upper\<close>.
\<close>

definition is_ascii :: "char \<Rightarrow> bool" where
  "is_ascii c = ((of_char c :: nat) < 128)"

definition upper :: "char \<Rightarrow> char" where
  "upper c = (let n = (of_char c :: nat) in if 97 \<le> n \<and> n \<le> 122 then char_of (n - 32) else c)"

text \<open>\<^verbatim>\<open>ambiguity_codes = set('RYSWKMBDHVN')\<close>\<close>

definition ambiguity_codes :: "char set" where
  "ambiguity_codes = set ''RYSWKMBDHVN''"

subsection \<open>The alignment\<close>

type_synonym alignment = "(string \<times> string) list"

definition is_dict :: "alignment \<Rightarrow> bool" where
  "is_dict sequences = distinct (map fst sequences)"

text \<open>Every character of every sequence is ASCII, as the alphabet of an alignment is.\<close>

definition ascii_alignment :: "alignment \<Rightarrow> bool" where
  "ascii_alignment sequences = list_all (\<lambda>e. list_all is_ascii (snd e)) sequences"

text \<open>The rectangularity precondition: every sequence is as long as the first one.\<close>

definition rectangular :: "alignment \<Rightarrow> bool" where
  "rectangular sequences =
     (case sequences of [] \<Rightarrow> True
      | first # others \<Rightarrow> list_all (\<lambda>e. length (snd e) = length (snd first)) others)"

text \<open>The alignment length \<open>L\<close>: the length of the first sequence, 0 when there is none.\<close>

definition align_length :: "alignment \<Rightarrow> nat" where
  "align_length sequences = (case sequences of [] \<Rightarrow> 0 | first # others \<Rightarrow> length (snd first))"

subsection \<open>\<^verbatim>\<open>calculate_pairwise_distances\<close>\<close>

record pairwise_record =
  seq1 :: string
  seq2 :: string
  snps :: int
  usable_positions :: int
  identity :: real

type_synonym distance_matrix = "string \<rightharpoonup> (string \<rightharpoonup> int)"

text \<open>The body of the loop over \<^verbatim>\<open>pos\<close>; the state is \<open>(snps, usable_positions)\<close>.\<close>

definition compare_position :: "string \<Rightarrow> string \<Rightarrow> nat \<Rightarrow> int \<times> int \<Rightarrow> py_error + (int \<times> int)" where
  "compare_position s1 s2 pos st =
     and_then (getitem s1 pos) (\<lambda>c1.
     and_then (getitem s2 pos) (\<lambda>c2.
       let base1 = upper c1; base2 = upper c2 in
       if base1 = CHR ''-'' \<or> base2 = CHR ''-'' then Inr st
       else if base1 \<in> ambiguity_codes \<or> base2 \<in> ambiguity_codes then Inr st
       else Inr (if base1 \<noteq> base2 then fst st + 1 else fst st, snd st + 1)))"

definition compare_sequences :: "string \<Rightarrow> string \<Rightarrow> py_error + (int \<times> int)" where
  "compare_sequences s1 s2 = for_loop [0..<length s1] (compare_position s1 s2) (0, 0)"

text \<open>\<^verbatim>\<open>a / b\<close> on two integers: ZeroDivisionError, or the rounded quotient.\<close>

definition truediv :: "(real \<Rightarrow> real) \<Rightarrow> int \<Rightarrow> int \<Rightarrow> py_error + real" where
  "truediv rnd a b =
     (if b = 0 then Inl ZeroDivisionError else Inr (rnd (real_of_int a / real_of_int b)))"

text \<open>
  \<^verbatim>\<open>100 * (1 - snps / usable_positions) if usable_positions > 0 else 0\<close>
\<close>

definition identity_percent :: "(real \<Rightarrow> real) \<Rightarrow> int \<Rightarrow> int \<Rightarrow> py_error + real" where
  "identity_percent rnd n u =
     (if u > 0 then and_then (truediv rnd n u) (\<lambda>q. Inr (rnd (100 * rnd (1 - q))))
      else Inr 0)"

text \<open>
  \<^verbatim>\<open>distance_matrix[a][b] = v\<close>: the row of \<open>a\<close> is looked up (KeyError when there is
  none) and updated in place. Every row is a dict of its own, so the update touches the
  row of \<open>a\<close> only.
\<close>

definition matrix_store :: "distance_matrix \<Rightarrow> string \<Rightarrow> string \<Rightarrow> int \<Rightarrow> py_error + distance_matrix" where
  "matrix_store dm a b v = and_then (map_getitem dm a) (\<lambda>row. Inr (dm(a \<mapsto> row(b \<mapsto> v))))"

text \<open>
  The body of the loop over \<open>j\<close>; the state is \<open>(pairwise_distances, distance_matrix)\<close>.
\<close>

definition pair_body ::
  "(real \<Rightarrow> real) \<Rightarrow> alignment \<Rightarrow> string list \<Rightarrow> nat \<Rightarrow> nat \<Rightarrow>
   pairwise_record list \<times> distance_matrix \<Rightarrow> py_error + (pairwise_record list \<times> distance_matrix)" where
  "pair_body rnd sequences seq_names i j st =
     and_then (getitem seq_names i) (\<lambda>name1.
     and_then (getitem seq_names j) (\<lambda>name2.
     and_then (dict_getitem sequences name1) (\<lambda>s1.
     and_then (dict_getitem sequences name2) (\<lambda>s2.
     and_then (compare_sequences s1 s2) (\<lambda>cnt.
     and_then (identity_percent rnd (fst cnt) (snd cnt)) (\<lambda>idn.
     and_then (matrix_store (snd st) name1 name2 (fst cnt)) (\<lambda>dm1.
     and_then (matrix_store dm1 name2 name1 (fst cnt)) (\<lambda>dm2.
       Inr (fst st @ [\<lparr>seq1 = name1, seq2 = name2, snps = fst cnt,
                       usable_positions = snd cnt, identity = idn\<rparr>], dm2)))))))))"

text \<open>\<^verbatim>\<open>for name in seq_names: distance_matrix[name] = {}\<close>\<close>

definition init_matrix :: "string list \<Rightarrow> distance_matrix" where
  "init_matrix seq_names = fold (\<lambda>name dm. dm(name \<mapsto> Map.empty)) seq_names Map.empty"

definition calculate_pairwise_distances ::
  "(real \<Rightarrow> real) \<Rightarrow> alignment \<Rightarrow> py_error + (pairwise_record list \<times> distance_matrix \<times> string list)" where
  "calculate_pairwise_distances rnd sequences =
     (let seq_names = map fst sequences in
      and_then
        (for_loop [0..<length seq_names]
           (\<lambda>i. for_loop [i + 1..<length seq_names] (pair_body rnd sequences seq_names i))
           ([], init_matrix seq_names))
        (\<lambda>st. Inr (fst st, snd st, seq_names)))"

text \<open>\<^verbatim>\<open>b in distance_matrix[a]\<close> and the entry itself, for reading the result.\<close>

definition matrix_entry :: "distance_matrix \<Rightarrow> string \<Rightarrow> string \<Rightarrow> int option" where
  "matrix_entry dm a b = (case dm a of None \<Rightarrow> None | Some row \<Rightarrow> row b)"

subsection \<open>\<^verbatim>\<open>find_differences\<close>\<close>

text \<open>
  The body of the loop over \<^verbatim>\<open>pos\<close>; the state is
  \<open>(differences, gap_positions, ambiguous_positions)\<close>.
\<close>

definition classify_position ::
  "string list \<Rightarrow> nat \<Rightarrow> nat list \<times> nat list \<times> nat list \<Rightarrow>
   py_error + (nat list \<times> nat list \<times> nat list)" where
  "classify_position seq_list pos st =
     and_then (comprehension (\<lambda>s. and_then (getitem s pos) (\<lambda>c. Inr (upper c))) seq_list)
       (\<lambda>bases.
         let bases_set = set bases;
             has_gap = (CHR ''-'' \<in> bases_set);
             has_ambiguity = (bases_set \<inter> ambiguity_codes \<noteq> {})
         in case st of (differences, gap_positions, ambiguous_positions) \<Rightarrow>
           if has_gap then Inr (differences, gap_positions @ [pos], ambiguous_positions)
           else if has_ambiguity then Inr (differences, gap_positions, ambiguous_positions @ [pos])
           else if card bases_set > 1 then Inr (differences @ [pos], gap_positions, ambiguous_positions)
           else Inr st)"

definition find_differences :: "alignment \<Rightarrow> py_error + (nat list \<times> nat list \<times> nat list)" where
  "find_differences sequences =
     (if sequences = [] then Inr ([], [], [])
      else
        let seq_list = map snd sequences in
        and_then (getitem seq_list 0) (\<lambda>first.
          for_loop [0..<length first] (classify_position seq_list) ([], [], [])))"

subsection \<open>The results in closed form\<close>

definition usable_column :: "string \<Rightarrow> string \<Rightarrow> nat \<Rightarrow> bool" where
  "usable_column a b p =
     (upper (a ! p) \<noteq> CHR ''-'' \<and> upper (b ! p) \<noteq> CHR ''-'' \<and>
      upper (a ! p) \<notin> ambiguity_codes \<and> upper (b ! p) \<notin> ambiguity_codes)"

definition snp_column :: "string \<Rightarrow> string \<Rightarrow> nat \<Rightarrow> bool" where
  "snp_column a b p = (usable_column a b p \<and> upper (a ! p) \<noteq> upper (b ! p))"

definition usable_count :: "nat \<Rightarrow> string \<Rightarrow> string \<Rightarrow> int" where
  "usable_count L a b = int (card {p. p < L \<and> usable_column a b p})"

definition snp_count :: "nat \<Rightarrow> string \<Rightarrow> string \<Rightarrow> int" where
  "snp_count L a b = int (card {p. p < L \<and> snp_column a b p})"

definition index_pairs :: "nat \<Rightarrow> (nat \<times> nat) list" where
  "index_pairs n = [(i, j). i \<leftarrow> [0..<n], j \<leftarrow> [i + 1..<n]]"

definition identity_value :: "(real \<Rightarrow> real) \<Rightarrow> int \<Rightarrow> int \<Rightarrow> real" where
  "identity_value rnd n u =
     (if u > 0 then rnd (100 * rnd (1 - rnd (real_of_int n / real_of_int u))) else 0)"

definition record_of_pair :: "(real \<Rightarrow> real) \<Rightarrow> alignment \<Rightarrow> nat \<times> nat \<Rightarrow> pairwise_record" where
  "record_of_pair rnd al p =
     (let a = al ! fst p; b = al ! snd p; L = align_length al;
          n = snp_count L (snd a) (snd b); u = usable_count L (snd a) (snd b)
      in \<lparr>seq1 = fst a, seq2 = fst b, snps = n, usable_positions = u,
          identity = identity_value rnd n u\<rparr>)"

definition name_pair :: "alignment \<Rightarrow> nat \<times> nat \<Rightarrow> string \<times> string" where
  "name_pair al p = (fst (al ! fst p), fst (al ! snd p))"

definition matrix_after :: "alignment \<Rightarrow> (string \<times> string) set \<Rightarrow> distance_matrix" where
  "matrix_after al P =
     (\<lambda>a. if a \<in> fst ` set al
          then Some (\<lambda>b. if (a, b) \<in> P \<or> (b, a) \<in> P
                         then Some (snp_count (align_length al) (the (map_of al a)) (the (map_of al b)))
                         else None)
          else None)"

text \<open>
  The position classifier: the distinct upper-case symbols of a column, whether some sequence
  has a gap there, whether some sequence has an ambiguity code there, and the three classes
  in their order of priority.
\<close>

definition bases_at :: "alignment \<Rightarrow> nat \<Rightarrow> char set" where
  "bases_at al p = (\<lambda>e. upper (snd e ! p)) ` set al"

definition gap_at :: "alignment \<Rightarrow> nat \<Rightarrow> bool" where
  "gap_at al p = (\<exists>e\<in>set al. snd e ! p = CHR ''-'')"

definition ambiguity_at :: "alignment \<Rightarrow> nat \<Rightarrow> bool" where
  "ambiguity_at al p = (\<exists>e\<in>set al. upper (snd e ! p) \<in> ambiguity_codes)"

definition gap_column :: "alignment \<Rightarrow> nat \<Rightarrow> bool" where
  "gap_column al p = gap_at al p"

definition ambiguous_column :: "alignment \<Rightarrow> nat \<Rightarrow> bool" where
  "ambiguous_column al p = (\<not> gap_at al p \<and> ambiguity_at al p)"

definition variant_column :: "alignment \<Rightarrow> nat \<Rightarrow> bool" where
  "variant_column al p = (\<not> gap_at al p \<and> \<not> ambiguity_at al p \<and> 1 < card (bases_at al p))"

subsection \<open>Example alignments\<close>

text \<open>The example of the specification, and two more with lower case, gaps and codes.\<close>

definition example_alignment :: alignment where
  "example_alignment = [(''s1'', ''ACGT-N''), (''s2'', ''ACTTAN'')]"

definition mixed_alignment :: alignment where
  "mixed_alignment = [(''a'', ''acgtn-A''), (''b'', ''ACCTAGa''), (''c'', ''AGGTART'')]"

definition gapped_alignment :: alignment where
  "gapped_alignment = [(''x'', ''--N''), (''y'', ''ACG'')]"

text \<open>
  A rounding function that loses information, for instantiating \<open>rnd\<close>: to the nearest
  multiple of \<open>1/1024\<close>.
\<close>

definition grid_round :: "real \<Rightarrow> real" where
  "grid_round x = real_of_int (round (x * 1024)) / 1024"

section \<open>Properties\<close>

subsection \<open>Characters and loops\<close>

lemma of_char_upper_range:
  assumes "97 \<le> (of_char c :: nat)" "(of_char c :: nat) \<le> 122"
  shows "(of_char (upper c) :: nat) = of_char c - 32"
  using assms by (simp add: upper_def Let_def)

lemma upper_gap [simp]: "upper c = CHR ''-'' \<longleftrightarrow> c = CHR ''-''"
proof (cases "97 \<le> (of_char c :: nat) \<and> (of_char c :: nat) \<le> 122")
  case True
  then have u: "(of_char (upper c) :: nat) = of_char c - 32"
    by (simp add: of_char_upper_range)
  have "upper c \<noteq> CHR ''-''"
  proof
    assume "upper c = CHR ''-''"
    then have "(of_char (upper c) :: nat) = 45" by simp
    with u True show False by arith
  qed
  moreover have "c \<noteq> CHR ''-''"
    using True by auto
  ultimately show ?thesis by simp
next
  case False
  then show ?thesis by (auto simp: upper_def Let_def)
qed

text \<open>
  Beyond ASCII \<open>upper\<close> changes nothing, where \<^verbatim>\<open>str.upper\<close> maps, for one, the code
  point 233 to 201: there the model is not the code, and \<open>ascii_alignment\<close> keeps the
  theorems about the upper-cased bases away from it.
\<close>

lemma upper_beyond_ascii: "\<not> is_ascii c \<Longrightarrow> upper c = c"
  by (simp add: upper_def is_ascii_def Let_def)

lemma upper_ascii: "is_ascii c \<Longrightarrow> is_ascii (upper c)"
  by (auto simp: upper_def is_ascii_def Let_def)

lemma for_loop_append:
  "for_loop (xs @ ys) body s =
     (case for_loop xs body s of Inl e \<Rightarrow> Inl e | Inr s' \<Rightarrow> for_loop ys body s')"
  by (induction xs arbitrary: s) (auto split: sum.splits)

lemma for_loop_map:
  "for_loop (map f xs) body s = for_loop xs (\<lambda>x. body (f x)) s"
  by (induction xs arbitrary: s) (auto split: sum.splits)

lemma for_loop_nested:
  "for_loop xs (\<lambda>i. for_loop (g i) (body i)) s =
   for_loop (concat (map (\<lambda>i. map (Pair i) (g i)) xs)) (\<lambda>p. body (fst p) (snd p)) s"
  by (induction xs arbitrary: s) (auto simp: for_loop_append for_loop_map split: sum.splits)

lemma compare_position_in_range:
  assumes "p < length s1" "p < length s2"
  shows "compare_position s1 s2 p st =
     Inr (fst st + (if snp_column s1 s2 p then 1 else 0),
          snd st + (if usable_column s1 s2 p then 1 else 0))"
  using assms
  by (auto simp: compare_position_def and_then_def getitem_def Let_def snp_column_def usable_column_def)

lemma compare_loop:
  assumes "\<forall>p\<in>set ps. p < length s1 \<and> p < length s2"
  shows "for_loop ps (compare_position s1 s2) st =
     Inr (fst st + int (length (filter (snp_column s1 s2) ps)),
          snd st + int (length (filter (usable_column s1 s2) ps)))"
  using assms
proof (induction ps arbitrary: st)
  case Nil
  then show ?case by simp
next
  case (Cons p ps)
  then show ?case by (simp add: compare_position_in_range)
qed

lemma length_filter_upt: "length (filter P [0..<n]) = card {p. p < n \<and> P p}"
proof -
  have "{i. i < length [0..<n] \<and> P ([0..<n] ! i)} = {p. p < n \<and> P p}"
    by auto
  then show ?thesis by (simp add: length_filter_conv_card)
qed

lemma compare_sequences_eq:
  assumes "length s1 \<le> length s2"
  shows "compare_sequences s1 s2 = Inr (snp_count (length s1) s1 s2, usable_count (length s1) s1 s2)"
proof -
  have "\<forall>p\<in>set [0..<length s1]. p < length s1 \<and> p < length s2"
    using assms by auto
  then show ?thesis
    unfolding compare_sequences_def
    by (simp add: compare_loop length_filter_upt snp_count_def usable_count_def)
qed

lemma usable_column_sym: "usable_column a b p = usable_column b a p"
  by (auto simp: usable_column_def)

lemma snp_column_sym: "snp_column a b p = snp_column b a p"
  by (auto simp: snp_column_def usable_column_def)

lemma snp_count_sym: "snp_count L a b = snp_count L b a"
  by (simp add: snp_count_def snp_column_sym [of a b])

lemma usable_count_sym: "usable_count L a b = usable_count L b a"
  by (simp add: usable_count_def usable_column_sym [of a b])

lemma snp_le_usable: "snp_count L a b \<le> usable_count L a b"
proof -
  have "card {p. p < L \<and> snp_column a b p} \<le> card {p. p < L \<and> usable_column a b p}"
    by (rule card_mono) (auto simp: snp_column_def)
  then show ?thesis by (simp add: snp_count_def usable_count_def)
qed

lemma usable_le_length: "usable_count L a b \<le> int L"
proof -
  have "card {p. p < L \<and> usable_column a b p} \<le> card {p. p < L}"
    by (rule card_mono) auto
  then show ?thesis by (simp add: usable_count_def)
qed

lemma identity_percent_eq: "identity_percent rnd n u = Inr (identity_value rnd n u)"
  by (simp add: identity_percent_def identity_value_def truediv_def and_then_def)

lemma rectangular_length:
  assumes "rectangular al" "i < length al"
  shows "length (snd (al ! i)) = align_length al"
proof (cases al)
  case Nil
  with assms show ?thesis by simp
next
  case (Cons first others)
  show ?thesis
  proof (cases i)
    case 0
    with Cons show ?thesis by (simp add: align_length_def)
  next
    case (Suc k)
    with assms Cons have "k < length others" by simp
    moreover from assms Cons have "\<forall>e\<in>set others. length (snd e) = length (snd first)"
      by (simp add: rectangular_def list_all_iff)
    ultimately have "length (snd (others ! k)) = length (snd first)" by simp
    with Cons Suc show ?thesis by (simp add: align_length_def)
  qed
qed

lemma map_of_nth:
  assumes "is_dict al" "i < length al"
  shows "map_of al (fst (al ! i)) = Some (snd (al ! i))"
proof -
  have "(fst (al ! i), snd (al ! i)) \<in> set al"
    using assms(2) by simp
  with assms(1) show ?thesis
    unfolding is_dict_def by (rule map_of_is_SomeI)
qed

lemma dict_getitem_nth:
  assumes "is_dict al" "i < length al"
  shows "dict_getitem al (fst (al ! i)) = Inr (snd (al ! i))"
  using map_of_nth [OF assms] by (simp add: dict_getitem_def)

lemma init_matrix_fold:
  "fold (\<lambda>name dm. dm(name \<mapsto> Map.empty)) xs m =
     (\<lambda>a. if a \<in> set xs then Some Map.empty else m a)"
  by (induction xs arbitrary: m) (auto simp: fun_eq_iff)

lemma init_matrix_eq: "init_matrix (map fst al) = matrix_after al {}"
  by (auto simp: init_matrix_def init_matrix_fold matrix_after_def fun_eq_iff)

lemma and_then_Inr [simp]: "and_then (Inr x) f = f x"
  by (simp add: and_then_def)

lemma and_then_Inl [simp]: "and_then (Inl e) f = Inl e"
  by (simp add: and_then_def)

lemma matrix_store_eq:
  assumes "dm a = Some row"
  shows "matrix_store dm a b v = Inr (dm(a \<mapsto> row(b \<mapsto> v)))"
  using assms by (simp add: matrix_store_def map_getitem_def)

lemma matrix_store_pair:
  assumes a: "a \<in> fst ` set al" and b: "b \<in> fst ` set al"
    and v: "v = snp_count (align_length al) (the (map_of al a)) (the (map_of al b))"
  shows "\<exists>dm1. matrix_store (matrix_after al P) a b v = Inr dm1 \<and>
               matrix_store dm1 b a v = Inr (matrix_after al (insert (a, b) P))"
proof -
  let ?M = "matrix_after al P"
  let ?row = "\<lambda>Q x y. if (x, y) \<in> Q \<or> (y, x) \<in> Q
      then Some (snp_count (align_length al) (the (map_of al x)) (the (map_of al y))) else None"
  let ?Q = "insert (a, b) P"
  have sym: "snp_count (align_length al) (the (map_of al b)) (the (map_of al a)) = v"
    unfolding v by (rule snp_count_sym)
  have ra: "?M a = Some (?row P a)"
    using a by (simp add: matrix_after_def)
  let ?ra = "(?row P a)(b \<mapsto> v)"
  let ?dm1 = "?M(a \<mapsto> ?ra)"
  let ?rb = "if a = b then ?ra else ?row P b"
  have rb: "?dm1 b = Some ?rb"
    using b by (simp add: matrix_after_def)
  have s1: "matrix_store ?M a b v = Inr ?dm1"
    using ra by (rule matrix_store_eq)
  have s2: "matrix_store ?dm1 b a v = Inr (?dm1(b \<mapsto> ?rb(a \<mapsto> v)))"
    using rb by (rule matrix_store_eq)
  have row_a: "?ra y = ?row ?Q a y" if "a \<noteq> b" for y
    using that by (simp add: v)
  have row_b: "(?rb(a \<mapsto> v)) y = ?row ?Q b y" for y
    by (simp add: v sym)
  have "(?dm1(b \<mapsto> ?rb(a \<mapsto> v))) x = matrix_after al ?Q x" for x
  proof (cases "x = b")
    case True
    have "?rb(a \<mapsto> v) = ?row ?Q b"
      using row_b by (rule ext)
    with True b show ?thesis by (simp add: matrix_after_def)
  next
    case False
    show ?thesis
    proof (cases "x = a")
      case True
      with False have ab: "a \<noteq> b" by simp
      have "?ra = ?row ?Q a"
        using row_a [OF ab] by (rule ext)
      with True False a show ?thesis by (simp add: matrix_after_def)
    next
      case xa: False
      with False show ?thesis by (auto simp: matrix_after_def fun_eq_iff)
    qed
  qed
  then have "?dm1(b \<mapsto> ?rb(a \<mapsto> v)) = matrix_after al ?Q"
    by (rule ext)
  with s1 s2 show ?thesis by simp
qed

lemma pair_body_eq:
  assumes d: "is_dict al" and r: "rectangular al" and i: "i < length al" and j: "j < length al"
  shows "pair_body rnd al (map fst al) i j (pds, matrix_after al P) =
         Inr (pds @ [record_of_pair rnd al (i, j)], matrix_after al (insert (name_pair al (i, j)) P))"
proof -
  let ?a = "al ! i" and ?b = "al ! j"
  let ?v = "snp_count (align_length al) (snd ?a) (snd ?b)"
  have li: "length (snd ?a) = align_length al" and lj: "length (snd ?b) = align_length al"
    using r i j by (simp_all add: rectangular_length)
  have cmp: "compare_sequences (snd ?a) (snd ?b) =
      Inr (?v, usable_count (align_length al) (snd ?a) (snd ?b))"
    using compare_sequences_eq [of "snd ?a" "snd ?b"] li lj by simp
  have mem: "fst ?a \<in> fst ` set al" "fst ?b \<in> fst ` set al"
    using i j by simp_all
  have v: "?v = snp_count (align_length al) (the (map_of al (fst ?a))) (the (map_of al (fst ?b)))"
    using d i j by (simp add: map_of_nth)
  from matrix_store_pair [OF mem v, of P]
  obtain dm1 where s1: "matrix_store (matrix_after al P) (fst ?a) (fst ?b) ?v = Inr dm1"
    and s2: "matrix_store dm1 (fst ?b) (fst ?a) ?v =
             Inr (matrix_after al (insert (fst ?a, fst ?b) P))"
    by blast
  show ?thesis
    unfolding pair_body_def
    using i j
    by (simp add: getitem_def dict_getitem_nth [OF d] cmp identity_percent_eq s1 s2
        record_of_pair_def name_pair_def Let_def)
qed

lemma pairs_loop:
  assumes d: "is_dict al" and r: "rectangular al"
    and ps: "\<forall>p\<in>set ps. fst p < length al \<and> snd p < length al"
  shows "for_loop ps (\<lambda>p. pair_body rnd al (map fst al) (fst p) (snd p)) (pds, matrix_after al P) =
         Inr (pds @ map (record_of_pair rnd al) ps, matrix_after al (P \<union> name_pair al ` set ps))"
  using ps
proof (induction ps arbitrary: pds P)
  case Nil
  then show ?case by simp
next
  case (Cons p ps)
  then have "fst p < length al" "snd p < length al" by simp_all
  then have step: "pair_body rnd al (map fst al) (fst p) (snd p) (pds, matrix_after al P) =
      Inr (pds @ [record_of_pair rnd al p], matrix_after al (insert (name_pair al p) P))"
    using pair_body_eq [OF d r, of "fst p" "snd p" rnd pds P] by simp
  from Cons have "\<forall>q\<in>set ps. fst q < length al \<and> snd q < length al" by simp
  note IH = Cons.IH [OF this]
  show ?case by (simp add: step IH)
qed

lemma set_index_pairs: "set (index_pairs n) = {(i, j). i < j \<and> j < n}"
  by (fastforce simp: index_pairs_def)

lemma calculate_pairwise_distances_eq:
  assumes d: "is_dict al" and r: "rectangular al"
  shows "calculate_pairwise_distances rnd al =
     Inr (map (record_of_pair rnd al) (index_pairs (length al)),
          matrix_after al (name_pair al ` set (index_pairs (length al))),
          map fst al)"
proof -
  have "\<forall>p\<in>set (index_pairs (length al)). fst p < length al \<and> snd p < length al"
    by (auto simp: set_index_pairs)
  from pairs_loop [OF d r this, of rnd "[]" "{}"]
  show ?thesis
    unfolding calculate_pairwise_distances_def
    by (simp add: for_loop_nested init_matrix_eq and_then_def index_pairs_def Let_def)
qed

lemma length_index_pairs: "length (index_pairs n) = n * (n - 1) div 2"
proof -
  have "length (index_pairs n) = (\<Sum>i\<leftarrow>[0..<n]. n - Suc i)"
    by (simp add: index_pairs_def length_concat comp_def)
  also have "\<dots> = (\<Sum>i<n. n - Suc i)"
    by (simp add: sum_list_sum_nth atLeast0LessThan)
  also have "\<dots> = (\<Sum>i<n. i)"
    by (rule sum.nat_diff_reindex)
  also have "\<dots> = n * (n - 1) div 2"
    using Sum_Ico_nat [of 0 n] by (simp add: atLeast0LessThan)
  finally show ?thesis .
qed

lemma record_of_pair_fields:
  "seq1 (record_of_pair rnd al p) = fst (al ! fst p)"
  "seq2 (record_of_pair rnd al p) = fst (al ! snd p)"
  "snps (record_of_pair rnd al p) = snp_count (align_length al) (snd (al ! fst p)) (snd (al ! snd p))"
  "usable_positions (record_of_pair rnd al p) =
     usable_count (align_length al) (snd (al ! fst p)) (snd (al ! snd p))"
  "identity (record_of_pair rnd al p) =
     identity_value rnd (snp_count (align_length al) (snd (al ! fst p)) (snd (al ! snd p)))
       (usable_count (align_length al) (snd (al ! fst p)) (snd (al ! snd p)))"
  by (simp_all add: record_of_pair_def Let_def)

lemma name_in_pairs:
  assumes d: "is_dict al" and a: "(a, sa) \<in> set al" and b: "(b, sb) \<in> set al" and ab: "a \<noteq> b"
  shows "(a, b) \<in> name_pair al ` set (index_pairs (length al)) \<or>
         (b, a) \<in> name_pair al ` set (index_pairs (length al))"
proof -
  from a obtain i where i: "i < length al" "al ! i = (a, sa)" by (auto simp: in_set_conv_nth)
  from b obtain j where j: "j < length al" "al ! j = (b, sb)" by (auto simp: in_set_conv_nth)
  from i j ab have "i \<noteq> j" by auto
  then consider "i < j" | "j < i" by arith
  then show ?thesis
  proof cases
    case 1
    then have "(i, j) \<in> set (index_pairs (length al))" using j by (simp add: set_index_pairs)
    moreover have "name_pair al (i, j) = (a, b)" using i j by (simp add: name_pair_def)
    ultimately show ?thesis by force
  next
    case 2
    then have "(j, i) \<in> set (index_pairs (length al))" using i by (simp add: set_index_pairs)
    moreover have "name_pair al (j, i) = (b, a)" using i j by (simp add: name_pair_def)
    ultimately show ?thesis by force
  qed
qed

lemma diagonal_not_in_pairs:
  assumes d: "is_dict al"
  shows "(a, a) \<notin> name_pair al ` set (index_pairs (length al))"
proof
  assume "(a, a) \<in> name_pair al ` set (index_pairs (length al))"
  then obtain i j where ij: "i < j" "j < length al" and e: "fst (al ! i) = fst (al ! j)"
    by (auto simp: set_index_pairs name_pair_def)
  then have "map fst al ! i = map fst al ! j" by simp
  with d ij show False
    using nth_eq_iff_index_eq [of "map fst al" i j] by (simp add: is_dict_def)
qed

subsection \<open>Rounding\<close>

lemma grid_round_mono: "mono grid_round"
  by (rule monoI) (simp add: grid_round_def round_mono divide_right_mono)

lemma grid_round_exact: "grid_round 0 = 0" "grid_round 1 = 1" "grid_round 100 = 100"
  "grid_round (1 / 4) = 1 / 4" "grid_round (3 / 4) = 3 / 4" "grid_round 75 = 75"
  by (simp_all add: grid_round_def)

lemma grid_round_lossy: "grid_round (1 / 3) \<noteq> 1 / 3"
  by (simp add: grid_round_def round_def)

lemma identity_value_range:
  assumes m: "mono rnd" and r0: "rnd 0 = 0" and r1: "rnd 1 = 1" and r100: "rnd 100 = 100"
    and n: "0 \<le> n" "n \<le> u"
  shows "0 \<le> identity_value rnd n u \<and> identity_value rnd n u \<le> 100"
proof (cases "u > 0")
  case False
  then show ?thesis by (simp add: identity_value_def)
next
  case True
  let ?q = "rnd (real_of_int n / real_of_int u)"
  have "0 \<le> real_of_int n / real_of_int u" "real_of_int n / real_of_int u \<le> 1"
    using n True by simp_all
  then have "rnd 0 \<le> ?q" "?q \<le> rnd 1"
    using m by (auto dest: monoD)
  then have q: "0 \<le> ?q" "?q \<le> 1" by (simp_all add: r0 r1)
  let ?d = "rnd (1 - ?q)"
  from q have "rnd 0 \<le> ?d" "?d \<le> rnd 1"
    using m by (auto intro!: monoD [of rnd])
  then have d: "0 \<le> ?d" "?d \<le> 1" by (simp_all add: r0 r1)
  then have "rnd 0 \<le> rnd (100 * ?d)" "rnd (100 * ?d) \<le> rnd 100"
    using m by (auto intro!: monoD [of rnd])
  with True show ?thesis by (simp add: identity_value_def r0 r100)
qed

subsection \<open>The loop of the position classifier in closed form\<close>

lemma comprehension_map:
  assumes "\<forall>x\<in>set xs. f x = Inr (g x)"
  shows "comprehension f xs = Inr (map g xs)"
  using assms by (induction xs) simp_all

lemma classify_position_in_range:
  assumes "\<forall>e\<in>set al. pos < length (snd e)"
  shows "classify_position (map snd al) pos (d, g, a) =
     Inr (if gap_column al pos then (d, g @ [pos], a)
          else if ambiguous_column al pos then (d, g, a @ [pos])
          else if variant_column al pos then (d @ [pos], g, a)
          else (d, g, a))"
proof -
  have c: "comprehension (\<lambda>s. and_then (getitem s pos) (\<lambda>c. Inr (upper c))) (map snd al) =
      Inr (map (\<lambda>s. upper (s ! pos)) (map snd al))"
    using assms by (intro comprehension_map) (simp add: getitem_def)
  have g: "CHR ''-'' \<in> (\<lambda>x. upper (snd x ! pos)) ` set al \<longleftrightarrow> gap_at al pos"
    by (simp add: gap_at_def image_iff eq_commute [of "CHR ''-''"])
  have a: "(\<lambda>x. upper (snd x ! pos)) ` set al \<inter> ambiguity_codes = {} \<longleftrightarrow> \<not> ambiguity_at al pos"
    by (auto simp: ambiguity_at_def)
  show ?thesis
    unfolding classify_position_def c
    by (simp add: g a gap_column_def ambiguous_column_def variant_column_def bases_at_def
        image_image Let_def)
qed

lemma classify_loop:
  assumes "\<forall>p\<in>set ps. \<forall>e\<in>set al. p < length (snd e)"
  shows "for_loop ps (classify_position (map snd al)) (d, g, a) =
     Inr (d @ filter (variant_column al) ps, g @ filter (gap_column al) ps,
          a @ filter (ambiguous_column al) ps)"
  using assms
proof (induction ps arbitrary: d g a)
  case Nil
  then show ?case by simp
next
  case (Cons p ps)
  then have p: "\<forall>e\<in>set al. p < length (snd e)" by simp
  from Cons have "\<forall>q\<in>set ps. \<forall>e\<in>set al. q < length (snd e)" by simp
  note IH = Cons.IH [OF this]
  show ?case
    by (simp add: classify_position_in_range [OF p] IH
        gap_column_def ambiguous_column_def variant_column_def)
qed

lemma rectangular_member:
  assumes "rectangular al" "e \<in> set al"
  shows "length (snd e) = align_length al"
proof -
  from assms(2) obtain i where "i < length al" "al ! i = e"
    by (auto simp: in_set_conv_nth)
  with rectangular_length [OF assms(1), of i] show ?thesis by simp
qed

lemma find_differences_eq:
  assumes r: "rectangular al"
  shows "find_differences al =
     Inr (filter (variant_column al) [0..<align_length al],
          filter (gap_column al) [0..<align_length al],
          filter (ambiguous_column al) [0..<align_length al])"
proof (cases al)
  case Nil
  then show ?thesis by (simp add: find_differences_def align_length_def)
next
  case (Cons first others)
  have L: "align_length al = length (snd first)"
    using Cons by (simp add: align_length_def)
  have "\<forall>p\<in>set [0..<length (snd first)]. \<forall>e\<in>set al. p < length (snd e)"
    using rectangular_member [OF r] L by simp
  from classify_loop [OF this, of "[]" "[]" "[]"] show ?thesis
    using Cons by (simp add: find_differences_def getitem_def align_length_def Let_def)
qed

subsection \<open>The functions on the example alignments\<close>

lemma example_is_dict: "is_dict example_alignment" "is_dict mixed_alignment" "is_dict gapped_alignment"
  by (simp_all add: is_dict_def example_alignment_def mixed_alignment_def gapped_alignment_def)

lemma example_rectangular:
  "rectangular example_alignment" "rectangular mixed_alignment" "rectangular gapped_alignment"
  by (simp_all add: rectangular_def example_alignment_def mixed_alignment_def gapped_alignment_def)

lemma example_ascii: "ascii_alignment mixed_alignment"
  by (simp add: ascii_alignment_def is_ascii_def mixed_alignment_def)

lemma example_compare: "compare_sequences ''ACGT-N'' ''ACTTAN'' = Inr (1, 4)"
  by code_simp

lemma example_counts:
  "snp_count 6 ''ACGT-N'' ''ACTTAN'' = 1" "usable_count 6 ''ACGT-N'' ''ACTTAN'' = 4"
  using compare_sequences_eq [of "''ACGT-N''" "''ACTTAN''"] example_compare
  by (simp_all add: eval_nat_numeral)

lemma example_index_pairs:
  "index_pairs (length [(''s1'', ''ACGT-N''), (''s2'', ''ACTTAN'')]) = [(0, 1)]"
  by code_simp

lemma example_find_differences:
  "find_differences [(''s1'', ''ACGT-N''), (''s2'', ''ACTTAN'')] = Inr ([2], [4], [5])"
  by code_simp

lemma mixed_find_differences: "find_differences mixed_alignment = Inr ([1, 2, 6], [5], [4])"
  by code_simp

lemma mixed_records:
  "case calculate_pairwise_distances id mixed_alignment of
     Inl e \<Rightarrow> False
   | Inr (pds, dm, names) \<Rightarrow>
       map (\<lambda>r. (seq1 r, seq2 r, usable_positions r, snps r)) pds =
         [(''a'', ''b'', 5, 1), (''a'', ''c'', 5, 2), (''b'', ''c'', 6, 3)] \<and>
       names = [''a'', ''b'', ''c''] \<and>
       map (\<lambda>(a, b). matrix_entry dm a b)
         [(''a'', ''b''), (''b'', ''a''), (''a'', ''c''), (''c'', ''a''), (''b'', ''c''), (''c'', ''b''),
          (''a'', ''a''), (''b'', ''b''), (''c'', ''c'')] =
         [Some 1, Some 1, Some 2, Some 2, Some 3, Some 3, None, None, None]"
  by code_simp

text \<open>
  Without rectangularity the out-of-range branch is reached: the second sequence is
  shorter than the first, and both functions raise IndexError.
\<close>

lemma ragged_find_differences:
  "find_differences [(''a'', ''AC''), (''b'', ''A'')] = Inl IndexError"
  by code_simp

lemma ragged_pairwise_case:
  "case calculate_pairwise_distances id [(''a'', ''AC''), (''b'', ''A'')] of
     Inl e \<Rightarrow> e = IndexError | Inr r \<Rightarrow> False"
  by code_simp

lemma ragged_pairwise_distances:
  "calculate_pairwise_distances id [(''a'', ''AC''), (''b'', ''A'')] = Inl IndexError"
  using ragged_pairwise_case by (simp split: sum.splits)

section \<open>The pairwise distance engine\<close>

text \<open>
  Claim C1. On a rectangular alignment of ASCII sequences the engine returns one record
  for each pair of indices \<open>i < j\<close>, and for the sequences \<open>A\<close> and \<open>B\<close> of that pair the record's
  \<open>usable_positions\<close> is the number of columns below the alignment length at which neither
  upper-cased base is the gap sign and neither is an ambiguity code, and its \<open>snps\<close> is the
  number of those columns at which the two upper-cased bases differ.
\<close>

theorem pairwise_counts:
  assumes "is_dict al" and "rectangular al" and "ascii_alignment al"
  shows "\<exists>pds dm names. calculate_pairwise_distances rnd al = Inr (pds, dm, names) \<and>
     map (\<lambda>r. (seq1 r, seq2 r, usable_positions r, snps r)) pds =
     map (\<lambda>(i, j). (fst (al ! i), fst (al ! j),
                    int (card {p. p < align_length al \<and> usable_column (snd (al ! i)) (snd (al ! j)) p}),
                    int (card {p. p < align_length al \<and> usable_column (snd (al ! i)) (snd (al ! j)) p \<and>
                                 upper (snd (al ! i) ! p) \<noteq> upper (snd (al ! j) ! p)})))
         (index_pairs (length al))"
  unfolding calculate_pairwise_distances_eq [OF assms(1,2)]
  by (simp add: record_of_pair_fields usable_count_def snp_count_def snp_column_def split_def)

theorem pairwise_counts_witness:
  "is_dict mixed_alignment \<and> rectangular mixed_alignment \<and> ascii_alignment mixed_alignment \<and>
   (\<exists>pds dm names. calculate_pairwise_distances id mixed_alignment = Inr (pds, dm, names) \<and>
     map (\<lambda>r. (seq1 r, seq2 r, usable_positions r, snps r)) pds =
     map (\<lambda>(i, j). (fst (mixed_alignment ! i), fst (mixed_alignment ! j),
            int (card {p. p < align_length mixed_alignment \<and>
                          usable_column (snd (mixed_alignment ! i)) (snd (mixed_alignment ! j)) p}),
            int (card {p. p < align_length mixed_alignment \<and>
                          usable_column (snd (mixed_alignment ! i)) (snd (mixed_alignment ! j)) p \<and>
                          upper (snd (mixed_alignment ! i) ! p) \<noteq> upper (snd (mixed_alignment ! j) ! p)})))
         (index_pairs (length mixed_alignment)) \<and>
     map (\<lambda>r. (seq1 r, seq2 r, usable_positions r, snps r)) pds =
       [(''a'', ''b'', 5, 1), (''a'', ''c'', 5, 2), (''b'', ''c'', 6, 3)])"
proof -
  from pairwise_counts [OF example_is_dict(2) example_rectangular(2) example_ascii, of id]
  obtain pds dm names where
    run: "calculate_pairwise_distances id mixed_alignment = Inr (pds, dm, names)" and
    counts: "map (\<lambda>r. (seq1 r, seq2 r, usable_positions r, snps r)) pds =
     map (\<lambda>(i, j). (fst (mixed_alignment ! i), fst (mixed_alignment ! j),
            int (card {p. p < align_length mixed_alignment \<and>
                          usable_column (snd (mixed_alignment ! i)) (snd (mixed_alignment ! j)) p}),
            int (card {p. p < align_length mixed_alignment \<and>
                          usable_column (snd (mixed_alignment ! i)) (snd (mixed_alignment ! j)) p \<and>
                          upper (snd (mixed_alignment ! i) ! p) \<noteq> upper (snd (mixed_alignment ! j) ! p)})))
         (index_pairs (length mixed_alignment))"
    by blast
  from mixed_records run
  have vals: "map (\<lambda>r. (seq1 r, seq2 r, usable_positions r, snps r)) pds =
       [(''a'', ''b'', 5, 1), (''a'', ''c'', 5, 2), (''b'', ''c'', 6, 3)]"
    by simp
  show ?thesis
    by (intro conjI exI)
      (rule example_is_dict(2) example_rectangular(2) example_ascii run counts vals)+
qed

text \<open>
  Claim C7. On a rectangular alignment of length \<open>L\<close> the engine returns, and every
  pairwise record it returns has \<open>0 \<le> usable_positions \<le> L\<close> and
  \<open>0 \<le> snps \<le> usable_positions\<close>.
\<close>

theorem pairwise_bounds:
  assumes "is_dict al" and "rectangular al"
  shows "\<exists>pds dm names. calculate_pairwise_distances rnd al = Inr (pds, dm, names) \<and>
     (\<forall>r\<in>set pds. 0 \<le> usable_positions r \<and> usable_positions r \<le> int (align_length al) \<and>
                    0 \<le> snps r \<and> snps r \<le> usable_positions r)"
proof -
  have "0 \<le> usable_positions r \<and> usable_positions r \<le> int (align_length al) \<and>
        0 \<le> snps r \<and> snps r \<le> usable_positions r"
    if "r \<in> set (map (record_of_pair rnd al) (index_pairs (length al)))" for r
  proof -
    from that obtain p where r: "r = record_of_pair rnd al p" by auto
    show ?thesis
      unfolding r record_of_pair_fields
      by (simp add: snp_le_usable usable_le_length) (simp add: snp_count_def usable_count_def)
  qed
  then show ?thesis
    unfolding calculate_pairwise_distances_eq [OF assms] by blast
qed

theorem pairwise_bounds_witness:
  "is_dict mixed_alignment \<and> rectangular mixed_alignment \<and>
   (\<exists>pds dm names. calculate_pairwise_distances id mixed_alignment = Inr (pds, dm, names) \<and>
     (\<forall>r\<in>set pds. 0 \<le> usable_positions r \<and> usable_positions r \<le> int (align_length mixed_alignment) \<and>
                    0 \<le> snps r \<and> snps r \<le> usable_positions r))"
  using pairwise_bounds [OF example_is_dict(2) example_rectangular(2), of id]
    example_is_dict(2) example_rectangular(2)
  by blast

text \<open>
  Claim C3. On a rectangular alignment the engine returns (the division is never by zero),
  and in every record \<open>identity\<close> is \<open>100 * (1 - snps / usable_positions)\<close>, each operation
  rounded, when \<open>usable_positions > 0\<close>, and is 0 otherwise. For a rounding that is monotone
  and leaves 0, 1 and 100 as they are (they are floating-point numbers), \<open>identity\<close> lies
  between 0 and 100.
\<close>

theorem identity_percent_defined:
  assumes "is_dict al" and "rectangular al"
    and "mono rnd" and "rnd 0 = 0" and "rnd 1 = 1" and "rnd 100 = 100"
  shows "\<exists>pds dm names. calculate_pairwise_distances rnd al = Inr (pds, dm, names) \<and>
     (\<forall>r\<in>set pds.
        identity r =
          (if usable_positions r > 0
           then rnd (100 * rnd (1 - rnd (real_of_int (snps r) / real_of_int (usable_positions r))))
           else 0) \<and>
        0 \<le> identity r \<and> identity r \<le> 100)"
proof -
  have "identity r =
          (if usable_positions r > 0
           then rnd (100 * rnd (1 - rnd (real_of_int (snps r) / real_of_int (usable_positions r))))
           else 0) \<and>
        0 \<le> identity r \<and> identity r \<le> 100"
    if "r \<in> set (map (record_of_pair rnd al) (index_pairs (length al)))" for r
  proof -
    from that obtain p where r: "r = record_of_pair rnd al p" by auto
    let ?n = "snp_count (align_length al) (snd (al ! fst p)) (snd (al ! snd p))"
    let ?u = "usable_count (align_length al) (snd (al ! fst p)) (snd (al ! snd p))"
    have "0 \<le> ?n" by (simp add: snp_count_def)
    moreover have "?n \<le> ?u" by (rule snp_le_usable)
    ultimately have "0 \<le> identity_value rnd ?n ?u \<and> identity_value rnd ?n ?u \<le> 100"
      using assms(3-6) by (intro identity_value_range)
    then show ?thesis
      unfolding r record_of_pair_fields by (simp add: identity_value_def)
  qed
  then show ?thesis
    unfolding calculate_pairwise_distances_eq [OF assms(1,2)] by blast
qed

theorem identity_percent_defined_witness:
  "is_dict gapped_alignment \<and> rectangular gapped_alignment \<and>
   mono grid_round \<and> grid_round 0 = 0 \<and> grid_round 1 = 1 \<and> grid_round 100 = 100 \<and>
   (\<exists>pds dm names. calculate_pairwise_distances grid_round gapped_alignment = Inr (pds, dm, names) \<and>
     (\<forall>r\<in>set pds.
        identity r =
          (if usable_positions r > 0
           then grid_round (100 * grid_round (1 - grid_round (real_of_int (snps r) / real_of_int (usable_positions r))))
           else 0) \<and>
        0 \<le> identity r \<and> identity r \<le> 100))"
  using identity_percent_defined [OF example_is_dict(3) example_rectangular(3)
      grid_round_mono grid_round_exact(1-3)]
    example_is_dict(3) example_rectangular(3) grid_round_mono grid_round_exact(1-3)
  by blast

text \<open>
  Claim C4. On a rectangular alignment of ASCII sequences the distance matrix is symmetric
  and has no diagonal: for two different names \<open>a\<close> and \<open>b\<close> of the alignment, the entries under \<open>(a, b)\<close> and
  \<open>(b, a)\<close> are both present and both hold the SNP count of the two sequences, which is
  the \<open>snps\<close> of the record of that pair; no entry \<open>(a, a)\<close> is present.
\<close>

theorem distance_matrix_symmetric:
  assumes "is_dict al" and "rectangular al" and "ascii_alignment al"
  shows "\<exists>pds dm names. calculate_pairwise_distances rnd al = Inr (pds, dm, names) \<and>
     (\<forall>(a, sa)\<in>set al. \<forall>(b, sb)\<in>set al. a \<noteq> b \<longrightarrow>
        (\<exists>v. matrix_entry dm a b = Some v \<and> matrix_entry dm b a = Some v \<and>
             v = snp_count (align_length al) sa sb \<and>
             (\<exists>r\<in>set pds. (seq1 r = a \<and> seq2 r = b \<or> seq1 r = b \<and> seq2 r = a) \<and> snps r = v))) \<and>
     (\<forall>a. matrix_entry dm a a = None)"
proof -
  let ?P = "name_pair al ` set (index_pairs (length al))"
  let ?dm = "matrix_after al ?P"
  let ?pds = "map (record_of_pair rnd al) (index_pairs (length al))"
  let ?L = "align_length al"
  note d = assms(1)
  have diag: "matrix_entry ?dm a a = None" for a
    using diagonal_not_in_pairs [OF d, of a]
    by (simp add: matrix_entry_def matrix_after_def)
  have off: "\<exists>v. matrix_entry ?dm a b = Some v \<and> matrix_entry ?dm b a = Some v \<and>
             v = snp_count ?L sa sb \<and>
             (\<exists>r\<in>set ?pds. (seq1 r = a \<and> seq2 r = b \<or> seq1 r = b \<and> seq2 r = a) \<and> snps r = v)"
    if a: "(a, sa) \<in> set al" and b: "(b, sb) \<in> set al" and ab: "a \<noteq> b" for a sa b sb
  proof -
    have ma: "map_of al a = Some sa" and mb: "map_of al b = Some sb"
      using d a b by (simp_all add: is_dict_def)
    have mem: "a \<in> fst ` set al" "b \<in> fst ` set al"
      using a b by force+
    note np = name_in_pairs [OF d a b ab]
    have e1: "matrix_entry ?dm a b = Some (snp_count ?L sa sb)"
      using np mem by (auto simp: matrix_entry_def matrix_after_def ma mb)
    have e2: "matrix_entry ?dm b a = Some (snp_count ?L sa sb)"
      using np mem by (auto simp: matrix_entry_def matrix_after_def ma mb snp_count_sym [of ?L sb sa])
    from a obtain i where i: "i < length al" "al ! i = (a, sa)" by (auto simp: in_set_conv_nth)
    from b obtain j where j: "j < length al" "al ! j = (b, sb)" by (auto simp: in_set_conv_nth)
    from i j ab have "i \<noteq> j" by auto
    then consider "i < j" | "j < i" by arith
    then have "\<exists>r\<in>set ?pds. (seq1 r = a \<and> seq2 r = b \<or> seq1 r = b \<and> seq2 r = a) \<and>
        snps r = snp_count ?L sa sb"
    proof cases
      case 1
      then have "record_of_pair rnd al (i, j) \<in> set ?pds"
        using j by (simp add: set_index_pairs)
      moreover have "seq1 (record_of_pair rnd al (i, j)) = a" "seq2 (record_of_pair rnd al (i, j)) = b"
        "snps (record_of_pair rnd al (i, j)) = snp_count ?L sa sb"
        using i j by (simp_all add: record_of_pair_fields)
      ultimately show ?thesis by blast
    next
      case 2
      then have "record_of_pair rnd al (j, i) \<in> set ?pds"
        using i by (simp add: set_index_pairs)
      moreover have "seq1 (record_of_pair rnd al (j, i)) = b" "seq2 (record_of_pair rnd al (j, i)) = a"
        "snps (record_of_pair rnd al (j, i)) = snp_count ?L sa sb"
        using i j by (simp_all add: record_of_pair_fields snp_count_sym [of ?L sb sa])
      ultimately show ?thesis by blast
    qed
    with e1 e2 show ?thesis by blast
  qed
  have off': "\<forall>x\<in>set al. \<forall>y\<in>set al. fst x \<noteq> fst y \<longrightarrow>
      (\<exists>v. matrix_entry ?dm (fst x) (fst y) = Some v \<and> matrix_entry ?dm (fst y) (fst x) = Some v \<and>
             v = snp_count ?L (snd x) (snd y) \<and>
             (\<exists>r\<in>set ?pds. (seq1 r = fst x \<and> seq2 r = fst y \<or> seq1 r = fst y \<and> seq2 r = fst x) \<and>
                snps r = v))"
  proof (intro ballI impI)
    fix x y assume "x \<in> set al" "y \<in> set al" "fst x \<noteq> fst y"
    then show "\<exists>v. matrix_entry ?dm (fst x) (fst y) = Some v \<and> matrix_entry ?dm (fst y) (fst x) = Some v \<and>
             v = snp_count ?L (snd x) (snd y) \<and>
             (\<exists>r\<in>set ?pds. (seq1 r = fst x \<and> seq2 r = fst y \<or> seq1 r = fst y \<and> seq2 r = fst x) \<and>
                snps r = v)"
      using off [of "fst x" "snd x" "fst y" "snd y"] by simp
  qed
  show ?thesis
    unfolding calculate_pairwise_distances_eq [OF assms(1,2)] case_prod_beta
    by (rule exI [of _ ?pds], rule exI [of _ ?dm], rule exI [of _ "map fst al"])
      (intro conjI refl allI off' diag)
qed

theorem distance_matrix_symmetric_witness:
  "is_dict mixed_alignment \<and> rectangular mixed_alignment \<and> ascii_alignment mixed_alignment \<and>
   (\<exists>pds dm names. calculate_pairwise_distances id mixed_alignment = Inr (pds, dm, names) \<and>
     (\<forall>(a, sa)\<in>set mixed_alignment. \<forall>(b, sb)\<in>set mixed_alignment. a \<noteq> b \<longrightarrow>
        (\<exists>v. matrix_entry dm a b = Some v \<and> matrix_entry dm b a = Some v \<and>
             v = snp_count (align_length mixed_alignment) sa sb \<and>
             (\<exists>r\<in>set pds. (seq1 r = a \<and> seq2 r = b \<or> seq1 r = b \<and> seq2 r = a) \<and> snps r = v))) \<and>
     (\<forall>a. matrix_entry dm a a = None) \<and>
     matrix_entry dm ''a'' ''c'' = Some 2 \<and> matrix_entry dm ''c'' ''a'' = Some 2)"
proof -
  from distance_matrix_symmetric [OF example_is_dict(2) example_rectangular(2) example_ascii, of id]
  obtain pds dm names where
    run: "calculate_pairwise_distances id mixed_alignment = Inr (pds, dm, names)" and
    sym: "\<forall>(a, sa)\<in>set mixed_alignment. \<forall>(b, sb)\<in>set mixed_alignment. a \<noteq> b \<longrightarrow>
        (\<exists>v. matrix_entry dm a b = Some v \<and> matrix_entry dm b a = Some v \<and>
             v = snp_count (align_length mixed_alignment) sa sb \<and>
             (\<exists>r\<in>set pds. (seq1 r = a \<and> seq2 r = b \<or> seq1 r = b \<and> seq2 r = a) \<and> snps r = v))" and
    diag: "\<forall>a. matrix_entry dm a a = None"
    by blast
  from mixed_records run
  have vals: "matrix_entry dm ''a'' ''c'' = Some 2" "matrix_entry dm ''c'' ''a'' = Some 2"
    by simp_all
  show ?thesis
    by (intro conjI exI)
      (rule example_is_dict(2) example_rectangular(2) example_ascii run sym diag vals)+
qed

text \<open>
  Claim C5. On a rectangular alignment of \<open>n\<close> sequences the engine returns
  \<open>n * (n - 1) / 2\<close> records, and the pairs of names of the records, in the order of the
  list, are the pairs \<open>(names[i], names[j])\<close> of the forward double iteration
  \<open>i = 0, ..., n - 1\<close>, \<open>j = i + 1, ..., n - 1\<close> over the names in the order of the alignment.
\<close>

theorem pairwise_records_order:
  assumes "is_dict al" and "rectangular al"
  shows "\<exists>pds dm names. calculate_pairwise_distances rnd al = Inr (pds, dm, names) \<and>
     names = map fst al \<and>
     length pds = length al * (length al - 1) div 2 \<and>
     map (\<lambda>r. (seq1 r, seq2 r)) pds =
       [(names ! i, names ! j). i \<leftarrow> [0..<length names], j \<leftarrow> [i + 1..<length names]]"
proof -
  let ?n = "length al"
  have "map (\<lambda>r. (seq1 r, seq2 r)) (map (record_of_pair rnd al) (index_pairs ?n)) =
        map (\<lambda>p. (map fst al ! fst p, map fst al ! snd p)) (index_pairs ?n)"
    by (auto simp: record_of_pair_fields set_index_pairs)
  also have "\<dots> = [(map fst al ! i, map fst al ! j). i \<leftarrow> [0..<?n], j \<leftarrow> [i + 1..<?n]]"
    by (simp add: index_pairs_def map_concat comp_def)
  finally show ?thesis
    unfolding calculate_pairwise_distances_eq [OF assms]
    by (simp add: length_index_pairs)
qed

theorem pairwise_records_order_witness:
  "is_dict mixed_alignment \<and> rectangular mixed_alignment \<and>
   (\<exists>pds dm names. calculate_pairwise_distances id mixed_alignment = Inr (pds, dm, names) \<and>
     names = map fst mixed_alignment \<and>
     length pds = length mixed_alignment * (length mixed_alignment - 1) div 2 \<and>
     map (\<lambda>r. (seq1 r, seq2 r)) pds =
       [(names ! i, names ! j). i \<leftarrow> [0..<length names], j \<leftarrow> [i + 1..<length names]])"
  using pairwise_records_order [OF example_is_dict(2) example_rectangular(2), of id]
    example_is_dict(2) example_rectangular(2)
  by blast

text \<open>
  Claim C8, as the code has it. Called on fewer than two sequences the engine raises
  nothing: the loop over the pairs has no iteration, and it returns the empty list of
  records, a matrix with an empty row for each name, and the list of names. The function
  has no check of the number of sequences and no exception of its own.
\<close>

theorem fewer_than_two_sequences:
  assumes "length al < 2"
  shows "calculate_pairwise_distances rnd al =
     Inr ([], (\<lambda>a. if a \<in> fst ` set al then Some Map.empty else None), map fst al)"
proof -
  from assms have "length al = 0 \<or> length al = 1" by arith
  then have loop: "for_loop [0..<length al]
      (\<lambda>i. for_loop [i + 1..<length al] (pair_body rnd al (map fst al) i))
      ([], init_matrix (map fst al)) = Inr ([], init_matrix (map fst al))"
    by auto
  have "init_matrix (map fst al) = (\<lambda>a. if a \<in> fst ` set al then Some Map.empty else None)"
    by (auto simp: init_matrix_def init_matrix_fold fun_eq_iff)
  with loop show ?thesis
    by (simp add: calculate_pairwise_distances_def Let_def)
qed

theorem fewer_than_two_sequences_witness:
  "length [(''only'', ''ACGT'')] < 2 \<and>
   calculate_pairwise_distances id [(''only'', ''ACGT'')] =
     Inr ([], (\<lambda>a. if a \<in> fst ` set [(''only'', ''ACGT'')] then Some Map.empty else None),
          map fst [(''only'', ''ACGT'')])"
proof -
  have small: "length [(''only'', ''ACGT'')] < 2" by simp
  from fewer_than_two_sequences [OF small, of id] small show ?thesis by blast
qed

text \<open>
  The claim as the specification states it fails: on one sequence the result is a value,
  not an exception.
\<close>

theorem single_sequence_no_error:
  "calculate_pairwise_distances id [(''s1'', ''ACGT'')] = Inr ([], init_matrix [''s1''], [''s1''])"
  by (simp add: calculate_pairwise_distances_def Let_def)

section \<open>The position classifier\<close>

text \<open>
  Claim C2. On a rectangular alignment of ASCII sequences the classifier returns, and for
  every column \<open>p\<close> below the alignment length: \<open>p\<close> is a gap position iff some sequence has the gap sign at
  \<open>p\<close>; it is an ambiguous position iff it is not a gap position and the upper-cased base of
  some sequence at \<open>p\<close> is an ambiguity code; it is a variant position iff it is neither and
  the upper-cased bases at \<open>p\<close> have more than one distinct member. A column of none of
  the three kinds is in none of the three lists.
\<close>

theorem position_classes:
  assumes "rectangular al" and "ascii_alignment al"
  shows "\<exists>differences gap_positions ambiguous_positions.
     find_differences al = Inr (differences, gap_positions, ambiguous_positions) \<and>
     (\<forall>p<align_length al.
        (p \<in> set gap_positions \<longleftrightarrow> (\<exists>e\<in>set al. snd e ! p = CHR ''-'')) \<and>
        (p \<in> set ambiguous_positions \<longleftrightarrow>
           \<not> (\<exists>e\<in>set al. snd e ! p = CHR ''-'') \<and>
           (\<exists>e\<in>set al. upper (snd e ! p) \<in> ambiguity_codes)) \<and>
        (p \<in> set differences \<longleftrightarrow>
           \<not> (\<exists>e\<in>set al. snd e ! p = CHR ''-'') \<and>
           \<not> (\<exists>e\<in>set al. upper (snd e ! p) \<in> ambiguity_codes) \<and>
           1 < card ((\<lambda>e. upper (snd e ! p)) ` set al)))"
  unfolding find_differences_eq [OF assms(1)]
  by (simp add: gap_column_def ambiguous_column_def variant_column_def
      gap_at_def ambiguity_at_def bases_at_def)

theorem position_classes_witness:
  "rectangular mixed_alignment \<and> ascii_alignment mixed_alignment \<and>
   (\<exists>differences gap_positions ambiguous_positions.
     find_differences mixed_alignment = Inr (differences, gap_positions, ambiguous_positions) \<and>
     (\<forall>p<align_length mixed_alignment.
        (p \<in> set gap_positions \<longleftrightarrow> (\<exists>e\<in>set mixed_alignment. snd e ! p = CHR ''-'')) \<and>
        (p \<in> set ambiguous_positions \<longleftrightarrow>
           \<not> (\<exists>e\<in>set mixed_alignment. snd e ! p = CHR ''-'') \<and>
           (\<exists>e\<in>set mixed_alignment. upper (snd e ! p) \<in> ambiguity_codes)) \<and>
        (p \<in> set differences \<longleftrightarrow>
           \<not> (\<exists>e\<in>set mixed_alignment. snd e ! p = CHR ''-'') \<and>
           \<not> (\<exists>e\<in>set mixed_alignment. upper (snd e ! p) \<in> ambiguity_codes) \<and>
           1 < card ((\<lambda>e. upper (snd e ! p)) ` set mixed_alignment))) \<and>
     differences = [1, 2, 6] \<and> gap_positions = [5] \<and> ambiguous_positions = [4])"
proof -
  from position_classes [OF example_rectangular(2) example_ascii]
  obtain differences gap_positions ambiguous_positions where
    run: "find_differences mixed_alignment = Inr (differences, gap_positions, ambiguous_positions)" and
    cls: "\<forall>p<align_length mixed_alignment.
        (p \<in> set gap_positions \<longleftrightarrow> (\<exists>e\<in>set mixed_alignment. snd e ! p = CHR ''-'')) \<and>
        (p \<in> set ambiguous_positions \<longleftrightarrow>
           \<not> (\<exists>e\<in>set mixed_alignment. snd e ! p = CHR ''-'') \<and>
           (\<exists>e\<in>set mixed_alignment. upper (snd e ! p) \<in> ambiguity_codes)) \<and>
        (p \<in> set differences \<longleftrightarrow>
           \<not> (\<exists>e\<in>set mixed_alignment. snd e ! p = CHR ''-'') \<and>
           \<not> (\<exists>e\<in>set mixed_alignment. upper (snd e ! p) \<in> ambiguity_codes) \<and>
           1 < card ((\<lambda>e. upper (snd e ! p)) ` set mixed_alignment))"
    by blast
  from run mixed_find_differences
  have vals: "differences = [1, 2, 6]" "gap_positions = [5]" "ambiguous_positions = [4]"
    by simp_all
  show ?thesis
    by (intro conjI exI) (rule example_rectangular(2) example_ascii run cls vals)+
qed

text \<open>
  Claim C6. On a rectangular alignment of length \<open>L\<close> the three lists the classifier returns
  are pairwise disjoint and hold indices below \<open>L\<close> only; no index occurs twice in them.
\<close>

theorem position_classes_disjoint:
  assumes "rectangular al"
  shows "\<exists>differences gap_positions ambiguous_positions.
     find_differences al = Inr (differences, gap_positions, ambiguous_positions) \<and>
     set gap_positions \<inter> set ambiguous_positions = {} \<and>
     set gap_positions \<inter> set differences = {} \<and>
     set ambiguous_positions \<inter> set differences = {} \<and>
     set gap_positions \<union> set ambiguous_positions \<union> set differences \<subseteq> {0..<align_length al} \<and>
     distinct (gap_positions @ ambiguous_positions @ differences)"
  unfolding find_differences_eq [OF assms]
  by (auto simp: gap_column_def ambiguous_column_def variant_column_def)

theorem position_classes_disjoint_witness:
  "rectangular mixed_alignment \<and>
   (\<exists>differences gap_positions ambiguous_positions.
     find_differences mixed_alignment = Inr (differences, gap_positions, ambiguous_positions) \<and>
     set gap_positions \<inter> set ambiguous_positions = {} \<and>
     set gap_positions \<inter> set differences = {} \<and>
     set ambiguous_positions \<inter> set differences = {} \<and>
     set gap_positions \<union> set ambiguous_positions \<union> set differences
       \<subseteq> {0..<align_length mixed_alignment} \<and>
     distinct (gap_positions @ ambiguous_positions @ differences))"
  using position_classes_disjoint [OF example_rectangular(2)] example_rectangular(2)
  by blast

section \<open>The example of the specification, and the accesses\<close>

text \<open>
  Claim C9. On the alignment \<open>s1 = ACGT-N\<close>, \<open>s2 = ACTTAN\<close> the classifier returns the gap
  positions \<open>[4]\<close>, the ambiguous positions \<open>[5]\<close> and the variant positions \<open>[2]\<close>, and the
  engine returns one record, for \<open>(s1, s2)\<close>, with \<open>usable_positions = 4\<close>, \<open>snps = 1\<close> and
  \<open>identity = 75\<close>. The numbers \<open>1/4\<close>, \<open>3/4\<close> and \<open>75\<close> that the computation of
  \<open>identity\<close> passes through are floating-point numbers, which the rounding leaves as they
  are.
\<close>

theorem specification_example:
  assumes "rnd (1 / 4) = 1 / 4" and "rnd (3 / 4) = 3 / 4" and "rnd 75 = 75"
  shows "find_differences [(''s1'', ''ACGT-N''), (''s2'', ''ACTTAN'')] = Inr ([2], [4], [5]) \<and>
     (\<exists>dm. calculate_pairwise_distances rnd [(''s1'', ''ACGT-N''), (''s2'', ''ACTTAN'')] =
        Inr ([\<lparr>seq1 = ''s1'', seq2 = ''s2'', snps = 1, usable_positions = 4, identity = 75\<rparr>],
             dm, [''s1'', ''s2'']))"
proof -
  let ?al = "[(''s1'', ''ACGT-N''), (''s2'', ''ACTTAN'')]"
  have d: "is_dict ?al" and r: "rectangular ?al"
    by (simp_all add: is_dict_def rectangular_def)
  have L: "align_length ?al = 6"
    by (simp add: align_length_def)
  have a: "(1::real) - 1 / 4 = 3 / 4" and b: "(100::real) * (3 / 4) = 75"
    by simp_all
  have "rnd (100 * rnd (1 - rnd (1 / 4))) = 75"
    by (simp only: assms a b)
  then have "identity_value rnd 1 4 = 75"
    by (simp add: identity_value_def)
  then have "record_of_pair rnd ?al (0, 1) =
      \<lparr>seq1 = ''s1'', seq2 = ''s2'', snps = 1, usable_positions = 4, identity = 75\<rparr>"
    by (simp add: record_of_pair_def L example_counts Let_def)
  then show ?thesis
    unfolding calculate_pairwise_distances_eq [OF d r] example_find_differences
      example_index_pairs
    by simp
qed

theorem specification_example_witness:
  "grid_round (1 / 4) = 1 / 4 \<and> grid_round (3 / 4) = 3 / 4 \<and> grid_round 75 = 75 \<and>
   find_differences [(''s1'', ''ACGT-N''), (''s2'', ''ACTTAN'')] = Inr ([2], [4], [5]) \<and>
   (\<exists>dm. calculate_pairwise_distances grid_round [(''s1'', ''ACGT-N''), (''s2'', ''ACTTAN'')] =
      Inr ([\<lparr>seq1 = ''s1'', seq2 = ''s2'', snps = 1, usable_positions = 4, identity = 75\<rparr>],
           dm, [''s1'', ''s2'']))"
  using specification_example [OF grid_round_exact(4-6)] grid_round_exact(4-6)
  by blast

text \<open>
  Claim C10. On a rectangular alignment neither function reaches the out-of-range branch
  of an index: both return a value.
\<close>

theorem accesses_in_bounds:
  assumes "is_dict al" and "rectangular al"
  shows "(\<exists>r. find_differences al = Inr r) \<and> (\<exists>r. calculate_pairwise_distances rnd al = Inr r)"
  by (simp add: find_differences_eq [OF assms(2)] calculate_pairwise_distances_eq [OF assms])

theorem accesses_in_bounds_witness:
  "is_dict mixed_alignment \<and> rectangular mixed_alignment \<and>
   (\<exists>r. find_differences mixed_alignment = Inr r) \<and>
   (\<exists>r. calculate_pairwise_distances id mixed_alignment = Inr r)"
  using accesses_in_bounds [OF example_is_dict(2) example_rectangular(2), of id]
    example_is_dict(2) example_rectangular(2)
  by blast

end
